theory Spec2Isabelle
  imports Main
begin

section \<open>Che Ore Sono API: the handler of \<open>main.py\<close> and what it calls\<close>

text \<open>
  \<open>main.py\<close> has two functions of its own, \<open>get_rome_tz\<close> and \<open>che_ore_sono\<close>, and
  the constant \<open>TZ_NAME\<close>. Everything else they touch belongs to the host: the IANA
  database behind \<open>ZoneInfo(key)\<close>, the clock behind \<open>datetime.now\<close>, the calendar
  arithmetic of \<open>datetime\<close>, \<open>strftime\<close>, and the FastAPI route. The host is a record
  that the functions read; the standard library is modelled by what its documentation
  states (proleptic Gregorian calendar, years 1 to 9999, zero-padded decimal fields).
\<close>

subsection \<open>Exceptions\<close>

text \<open>
  Exceptions of the standard library. \<open>ZoneInfoNotFoundError\<close> carries \<open>str(exc)\<close>, the
  text that the f-string of \<open>get_rome_tz\<close> interpolates.
\<close>

datatype lib_exception =
    ZoneInfoNotFoundError string
  | ValueError string
  | OverflowError string
  | OSError string

text \<open>
  What leaves the handler: the \<open>fastapi.HTTPException\<close> that \<open>get_rome_tz\<close> raises
  (status code and detail), or a library exception that no \<open>except\<close> clause caught.
\<close>

datatype exn =
    HTTPException nat string
  | Uncaught lib_exception

subsection \<open>The host: timezone database and clock\<close>

text \<open>
  A loaded zone, as the TZif data describes it: the UTC offset (in seconds) in force
  before the first transition, and the transitions in increasing order, each a UTC
  instant with the offset in force from that instant on.
\<close>

record zoneinfo =
  key :: string
  utcoff_before :: int
  transitions :: "(int \<times> int) list"

fun utcoff_at :: "int \<Rightarrow> (int \<times> int) list \<Rightarrow> int \<Rightarrow> int" where
  "utcoff_at cur [] t = cur"
| "utcoff_at cur ((u, off) # rest) t = (if t < u then cur else utcoff_at off rest t)"

definition utcoffset :: "zoneinfo \<Rightarrow> int \<Rightarrow> int" where
  "utcoffset tz t = utcoff_at (utcoff_before tz) (transitions tz) t"

text \<open>A reading of the host clock: whole seconds since 1970-01-01T00:00:00Z and microseconds.\<close>

record instant =
  secs :: int
  usec :: nat

definition instant_le :: "instant \<Rightarrow> instant \<Rightarrow> bool" where
  "instant_le a b = (secs a < secs b \<or> (secs a = secs b \<and> usec a \<le> usec b))"

text \<open>
  \<open>tzdb h k\<close> is the outcome of \<open>ZoneInfo(k)\<close> on host \<open>h\<close>: the zone, or the exception
  the constructor raises.
\<close>

record host =
  tzdb :: "string \<Rightarrow> lib_exception + zoneinfo"
  clock :: instant

subsection \<open>\<open>TZ_NAME\<close> and \<open>get_rome_tz\<close>\<close>

definition TZ_NAME :: string where
  "TZ_NAME = ''Europe/Rome''"

text \<open>
  The detail of the \<open>HTTPException\<close>. The hyphen of \<open>time-zone\<close> in the source is
  U+2011, three bytes in UTF-8.
\<close>

definition remediation_detail :: "string \<Rightarrow> string" where
  "remediation_detail exc =
     ''Timezone data for '' @ [CHR 0x27] @ TZ_NAME @ [CHR 0x27] @ '' not found: '' @ exc @ ''. '' @
     ''Install the '' @ [CHR 0x27] @ ''tzdata'' @ [CHR 0x27] @ '' package (e.g. '' @ [CHR 0x60] @
     ''pip install tzdata'' @ [CHR 0x60] @ '') or '' @
     ''ensure the OS provides the IANA time'' @ [CHR 0xE2, CHR 0x80, CHR 0x91] @ ''zone database.''"

definition get_rome_tz :: "host \<Rightarrow> exn + zoneinfo" where
  "get_rome_tz h =
     (case tzdb h TZ_NAME of
        Inr tz \<Rightarrow> Inr tz
      | Inl (ZoneInfoNotFoundError exc) \<Rightarrow> Inl (HTTPException 500 (remediation_detail exc))
      | Inl e \<Rightarrow> Inl (Uncaught e))"

subsection \<open>\<open>datetime\<close>: calendar arithmetic\<close>

record datetime =
  year :: nat
  month :: nat
  day :: nat
  hour :: nat
  minute :: nat
  second :: nat
  microsecond :: nat

definition is_leap :: "nat \<Rightarrow> bool" where
  "is_leap y = (y mod 4 = 0 \<and> (y mod 100 \<noteq> 0 \<or> y mod 400 = 0))"

definition days_in_year :: "nat \<Rightarrow> nat" where
  "days_in_year y = (if is_leap y then 366 else 365)"

definition days_in_month :: "nat \<Rightarrow> nat \<Rightarrow> nat" where
  "days_in_month y m =
     (if m = 2 then (if is_leap y then 29 else 28)
      else if m = 4 \<or> m = 6 \<or> m = 9 \<or> m = 11 then 30 else 31)"

text \<open>From a day count within the calendar, starting at 1 January of year \<open>y\<close>: the year
  and the day of that year (from 0).\<close>

function ord2y :: "nat \<Rightarrow> nat \<Rightarrow> nat \<times> nat" where
  "ord2y y n = (if n < days_in_year y then (y, n) else ord2y (y + 1) (n - days_in_year y))"
  by pat_completeness auto
termination
  by (relation "measure (\<lambda>(y, n). n)") (auto simp: days_in_year_def)

text \<open>From a day of the year, starting at the first of month \<open>m\<close>: the month and the day of
  the month (from 1).\<close>

function ord2md :: "nat \<Rightarrow> nat \<Rightarrow> nat \<Rightarrow> nat \<times> nat" where
  "ord2md y m n =
     (if n < days_in_month y m then (m, n + 1) else ord2md y (m + 1) (n - days_in_month y m))"
  by pat_completeness auto
termination
  by (relation "measure (\<lambda>(y, m, n). n)") (auto simp: days_in_month_def)

declare ord2y.simps [simp del] ord2md.simps [simp del]

text \<open>The closed forms that the two recursions are compared with: the days before
  1 January of year \<open>y\<close> (counted from 0001-01-01), and the days of year \<open>y\<close> before
  the first of month \<open>m\<close>.\<close>

definition days_before_year :: "nat \<Rightarrow> nat" where
  "days_before_year y = (let p = y - 1 in 365 * p + p div 4 + p div 400 - p div 100)"

fun days_before_month :: "nat \<Rightarrow> nat \<Rightarrow> nat" where
  "days_before_month y 0 = 0"
| "days_before_month y (Suc m) =
     days_before_month y m + (if m = 0 then 0 else days_in_month y m)"

text \<open>
  The earliest and latest second that \<open>datetime\<close> represents: 0001-01-01 00:00:00 and
  9999-12-31 23:59:59, as seconds relative to 1970-01-01 00:00:00.
\<close>

definition MIN_SECONDS :: int where
  "MIN_SECONDS = - 62135596800"

definition MAX_SECONDS :: int where
  "MAX_SECONDS = 253402300799"

definition representable :: "int \<Rightarrow> bool" where
  "representable s = (MIN_SECONDS \<le> s \<and> s \<le> MAX_SECONDS)"

text \<open>The fields of the second \<open>s\<close> (719162 days lie between 0001-01-01 and 1970-01-01).\<close>

definition civil :: "int \<Rightarrow> nat \<Rightarrow> datetime" where
  "civil s us =
     (let n = nat (s div 86400 + 719162);
          sod = nat (s mod 86400);
          (y, doy) = ord2y 1 n;
          (m, d) = ord2md y 1 doy
      in \<lparr>year = y, month = m, day = d,
          hour = sod div 3600, minute = sod mod 3600 div 60, second = sod mod 60,
          microsecond = us\<rparr>)"

text \<open>
  \<open>datetime.now(tz)\<close>: read the clock, build the UTC date-time (\<open>ValueError\<close> when its year
  is outside 1..9999), then \<open>tz.fromutc\<close>: add the offset that the zone's rules give for
  this instant (\<open>OverflowError\<close> when the sum leaves the range). The messages are
  CPython's, without the number of the year.
\<close>

definition datetime_now :: "host \<Rightarrow> zoneinfo \<Rightarrow> lib_exception + datetime" where
  "datetime_now h tz =
     (let t = secs (clock h) in
      if \<not> representable t then Inl (ValueError ''year is out of range'')
      else let loc = t + utcoffset tz t in
        if \<not> representable loc then Inl (OverflowError ''date value out of range'')
        else Inr (civil loc (usec (clock h))))"

subsection \<open>\<open>strftime\<close>\<close>

definition digit :: "nat \<Rightarrow> char" where
  "digit k = char_of (48 + k)"

function dec :: "nat \<Rightarrow> string" where
  "dec n = (if n < 10 then [digit n] else dec (n div 10) @ [digit (n mod 10)])"
  by pat_completeness auto
termination
  by (relation "measure id") auto

declare dec.simps [simp del]

text \<open>A decimal number, zero-padded on the left to at least \<open>w\<close> characters.\<close>

definition zpad :: "nat \<Rightarrow> nat \<Rightarrow> string" where
  "zpad w n = replicate (w - length (dec n)) (CHR ''0'') @ dec n"

text \<open>\<open>dt.strftime("%Y-%m-%d %H:%M:%S")\<close>\<close>

definition strftime :: "datetime \<Rightarrow> string" where
  "strftime dt =
     zpad 4 (year dt) @ ''-'' @ zpad 2 (month dt) @ ''-'' @ zpad 2 (day dt) @ '' '' @
     zpad 2 (hour dt) @ '':'' @ zpad 2 (minute dt) @ '':'' @ zpad 2 (second dt)"

subsection \<open>The handler\<close>

definition che_ore_sono :: "host \<Rightarrow> exn + string" where
  "che_ore_sono h =
     (case get_rome_tz h of
        Inl e \<Rightarrow> Inl e
      | Inr tz \<Rightarrow>
          (case datetime_now h tz of
             Inl e \<Rightarrow> Inl (Uncaught e)
           | Inr now \<Rightarrow> Inr (strftime now)))"

subsection \<open>The route\<close>

text \<open>
  What FastAPI sends for \<open>GET /che_ore_sono\<close>, a route declared with
  \<open>response_class=PlainTextResponse\<close>: the returned string as a plain-text body with
  status 200; for an \<open>HTTPException\<close> its own status code and a JSON object whose
  \<open>detail\<close> member is the exception's detail; for any other exception the server's
  generic status 500.
\<close>

datatype payload =
    Text string
  | Json_detail string

record response =
  status_code :: nat
  media_type :: string
  body :: payload

definition get_che_ore_sono :: "host \<Rightarrow> response" where
  "get_che_ore_sono h =
     (case che_ore_sono h of
        Inr s \<Rightarrow> \<lparr>status_code = 200, media_type = ''text/plain'', body = Text s\<rparr>
      | Inl (HTTPException code detail) \<Rightarrow>
          \<lparr>status_code = code, media_type = ''application/json'', body = Json_detail detail\<rparr>
      | Inl (Uncaught e) \<Rightarrow>
          \<lparr>status_code = 500, media_type = ''text/plain'', body = Text ''Internal Server Error''\<rparr>)"

subsection \<open>Vocabulary of the properties\<close>

text \<open>The regular expression \<open>^\d{4}-\d{2}-\d{2} \d{2}:\d{2}:\d{2}$\<close>, as a list of
  tokens: a digit, or a literal character.\<close>

datatype token = Digit | Lit char

definition is_digit :: "char \<Rightarrow> bool" where
  "is_digit c = (48 \<le> (of_char c :: nat) \<and> (of_char c :: nat) \<le> 57)"

fun matches :: "token list \<Rightarrow> string \<Rightarrow> bool" where
  "matches [] [] = True"
| "matches (Digit # ps) (c # cs) = (is_digit c \<and> matches ps cs)"
| "matches (Lit x # ps) (c # cs) = (c = x \<and> matches ps cs)"
| "matches _ _ = False"

definition FormattedTime_pattern :: "token list" where
  "FormattedTime_pattern =
     replicate 4 Digit @ [Lit (CHR ''-'')] @ replicate 2 Digit @ [Lit (CHR ''-'')] @
     replicate 2 Digit @ [Lit (CHR '' '')] @ replicate 2 Digit @ [Lit (CHR '':'')] @
     replicate 2 Digit @ [Lit (CHR '':'')] @ replicate 2 Digit"

definition is_FormattedTime :: "string \<Rightarrow> bool" where
  "is_FormattedTime s = matches FormattedTime_pattern s"

text \<open>The slice \<open>s[i:j]\<close> and the number that a string of decimal digits denotes.\<close>

definition slice :: "string \<Rightarrow> nat \<Rightarrow> nat \<Rightarrow> string" where
  "slice s i j = take (j - i) (drop i s)"

definition digit_val :: "char \<Rightarrow> nat" where
  "digit_val c = of_char c - 48"

definition nat_of_string :: "string \<Rightarrow> nat" where
  "nat_of_string s = foldl (\<lambda>a c. 10 * a + digit_val c) 0 s"

text \<open>Comparison of strings character by character, as \<open><=\<close> on Python strings.\<close>

fun str_le :: "string \<Rightarrow> string \<Rightarrow> bool" where
  "str_le [] t = True"
| "str_le (c # cs) [] = False"
| "str_le (c # cs) (d # ds) =
     ((of_char c :: nat) < of_char d \<or> (c = d \<and> str_le cs ds))"

text \<open>\<open>sub in s\<close> on strings.\<close>

fun startswith :: "string \<Rightarrow> string \<Rightarrow> bool" where
  "startswith s [] = True"
| "startswith [] (p # ps) = False"
| "startswith (c # cs) (p # ps) = (c = p \<and> startswith cs ps)"

fun contains :: "string \<Rightarrow> string \<Rightarrow> bool" where
  "contains [] sub = (sub = [])"
| "contains (c # cs) sub = (startswith (c # cs) sub \<or> contains cs sub)"

text \<open>The \<open>w\<close> lowest decimal digits of \<open>n\<close>, highest first.\<close>

fun digs :: "nat \<Rightarrow> nat \<Rightarrow> string" where
  "digs 0 n = []"
| "digs (Suc w) n = digs w (n div 10) @ [digit (n mod 10)]"

text \<open>The shape that \<open>strftime\<close> produces when every field fits its width.\<close>

definition stamp :: "nat \<Rightarrow> nat \<Rightarrow> nat \<Rightarrow> nat \<Rightarrow> nat \<Rightarrow> nat \<Rightarrow> string" where
  "stamp y m d hh mm ss =
     digs 4 y @ ''-'' @ digs 2 m @ ''-'' @ digs 2 d @ '' '' @
     digs 2 hh @ '':'' @ digs 2 mm @ '':'' @ digs 2 ss"

subsection \<open>Hosts used as examples\<close>

text \<open>The part of the Europe/Rome table that covers 2024: CET (+1h) until
  2024-03-31T01:00:00Z, CEST (+2h) until 2024-10-27T01:00:00Z, CET after.\<close>

definition rome_2024 :: zoneinfo where
  "rome_2024 = \<lparr>key = ''Europe/Rome'', utcoff_before = 3600,
     transitions = [(1711846800, 7200), (1729990800, 3600)]\<rparr>"

definition tzdb_rome :: "string \<Rightarrow> lib_exception + zoneinfo" where
  "tzdb_rome k =
     (if k = ''Europe/Rome'' then Inr rome_2024
      else Inl (ZoneInfoNotFoundError ([CHR 0x27] @ ''No time zone found with key '' @ k @ [CHR 0x27])))"

text \<open>A host without IANA data, and one whose file for the zone is not a TZif file.\<close>

definition tzdb_missing :: "string \<Rightarrow> lib_exception + zoneinfo" where
  "tzdb_missing k =
     Inl (ZoneInfoNotFoundError ([CHR 0x27] @ ''No time zone found with key '' @ k @ [CHR 0x27]))"


definition host_at :: "(string \<Rightarrow> lib_exception + zoneinfo) \<Rightarrow> int \<Rightarrow> nat \<Rightarrow> host" where
  "host_at db s us = \<lparr>tzdb = db, clock = \<lparr>secs = s, usec = us\<rparr>\<rparr>"

section \<open>The calendar recursions against their closed forms\<close>

lemma mod_100_4: "(n::nat) mod 100 = 0 \<Longrightarrow> n mod 4 = 0"
proof -
  assume "n mod 100 = 0"
  then have "100 dvd n" by (simp add: dvd_eq_mod_eq_0)
  moreover have "(4::nat) dvd 100" by simp
  ultimately have "4 dvd n" by (rule dvd_trans[rotated])
  then show ?thesis by (simp add: dvd_eq_mod_eq_0)
qed

lemma mod_400_100: "(n::nat) mod 400 = 0 \<Longrightarrow> n mod 100 = 0"
proof -
  assume "n mod 400 = 0"
  then have "400 dvd n" by (simp add: dvd_eq_mod_eq_0)
  moreover have "(100::nat) dvd 400" by simp
  ultimately have "100 dvd n" by (rule dvd_trans[rotated])
  then show ?thesis by (simp add: dvd_eq_mod_eq_0)
qed

lemma days_before_year_Suc:
  "days_before_year (Suc (Suc p)) = days_before_year (Suc p) + days_in_year (Suc p)"
proof -
  define a b c where "a = p div 4" and "b = p div 100" and "c = p div 400"
  have le: "b \<le> a" unfolding a_def b_def by (rule div_le_mono2) simp_all
  have d4: "Suc p div 4 = (if Suc p mod 4 = 0 then Suc a else a)"
    unfolding a_def by (rule div_Suc)
  have d100: "Suc p div 100 = (if Suc p mod 100 = 0 then Suc b else b)"
    unfolding b_def by (rule div_Suc)
  have d400: "Suc p div 400 = (if Suc p mod 400 = 0 then Suc c else c)"
    unfolding c_def by (rule div_Suc)
  have e: "days_before_year (Suc (Suc p)) = 365 * Suc p + Suc p div 4 + Suc p div 400 - Suc p div 100"
    by (simp add: days_before_year_def)
  have e0: "days_before_year (Suc p) = 365 * p + a + c - b"
    by (simp add: days_before_year_def a_def b_def c_def)
  show ?thesis
    apply (simp only: e e0 d4 d100 d400 days_in_year_def is_leap_def)
    using le mod_100_4[of "Suc p"] mod_400_100[of "Suc p"]
    apply (auto split: if_splits)
    done
qed


lemma days_before_year_step:
  "1 \<le> y \<Longrightarrow> days_before_year (y + 1) = days_before_year y + days_in_year y"
  using days_before_year_Suc[of "y - 1"] by simp

lemma days_before_year_mono: "a \<le> b \<Longrightarrow> days_before_year a \<le> days_before_year b"
proof (induction b)
  case 0
  then show ?case by simp
next
  case (Suc b)
  show ?case
  proof (cases "a = Suc b")
    case True
    then show ?thesis by simp
  next
    case False
    with Suc have ih: "days_before_year a \<le> days_before_year b" by simp
    have "days_before_year b \<le> days_before_year (Suc b)"
    proof (cases b)
      case 0
      then show ?thesis by (simp add: days_before_year_def)
    next
      case (Suc p)
      then show ?thesis using days_before_year_Suc[of p] by simp
    qed
    with ih show ?thesis by simp
  qed
qed

lemma days_before_year_strict:
  assumes "1 \<le> a" "a < b"
  shows "days_before_year a + days_in_year a \<le> days_before_year b"
proof -
  have "days_before_year (a + 1) \<le> days_before_year b"
    using assms(2) by (intro days_before_year_mono) simp
  then show ?thesis using days_before_year_step[OF assms(1)] by simp
qed

lemma ord2y_char:
  "ord2y y0 n = (y, r) \<Longrightarrow> 1 \<le> y0 \<Longrightarrow>
   y0 \<le> y \<and> r < days_in_year y \<and> n + days_before_year y0 = days_before_year y + r"
proof (induction y0 n arbitrary: y r rule: ord2y.induct)
  case (1 y0 n)
  show ?case
  proof (cases "n < days_in_year y0")
    case True
    then have "ord2y y0 n = (y0, n)" by (simp add: ord2y.simps)
    with "1.prems" True show ?thesis by simp
  next
    case False
    then have "ord2y y0 n = ord2y (y0 + 1) (n - days_in_year y0)"
      by (subst ord2y.simps) simp
    with "1.prems" have e: "ord2y (y0 + 1) (n - days_in_year y0) = (y, r)" by simp
    from "1.IH"[OF False e] have
      "y0 + 1 \<le> y \<and> r < days_in_year y \<and>
       n - days_in_year y0 + days_before_year (y0 + 1) = days_before_year y + r"
      by simp
    then show ?thesis
      using False days_before_year_step[OF "1.prems"(2)] by simp
  qed
qed

lemma ord2y_closed:
  assumes "1 \<le> y" "days_before_year y \<le> n" "n < days_before_year y + days_in_year y"
  shows "ord2y 1 n = (y, n - days_before_year y)"
proof -
  obtain y' r where e: "ord2y 1 n = (y', r)" by (cases "ord2y 1 n")
  from ord2y_char[OF e] have c: "1 \<le> y'" "r < days_in_year y'"
    "n + days_before_year 1 = days_before_year y' + r" by simp_all
  have z: "days_before_year 1 = 0" by (simp add: days_before_year_def)
  have "\<not> y' < y"
  proof
    assume "y' < y"
    from days_before_year_strict[OF c(1) this] c assms z show False by simp
  qed
  moreover have "\<not> y < y'"
  proof
    assume "y < y'"
    from days_before_year_strict[OF assms(1) this] c assms z show False by simp
  qed
  ultimately have "y' = y" by simp
  with e c z show ?thesis by simp
qed


lemma days_in_month_pos: "0 < days_in_month y m"
  by (simp add: days_in_month_def)

lemma days_before_month_step:
  "1 \<le> m \<Longrightarrow> days_before_month y (m + 1) = days_before_month y m + days_in_month y m"
  by simp

lemma days_before_month_1: "days_before_month y 1 = 0"
  by simp

lemma days_before_month_13: "days_before_month y 13 = days_in_year y"
  by (simp add: eval_nat_numeral days_in_month_def days_in_year_def)

lemma days_before_month_mono: "a \<le> b \<Longrightarrow> days_before_month y a \<le> days_before_month y b"
  by (induction b) (auto simp: le_Suc_eq)

lemma days_before_month_strict:
  assumes "1 \<le> a" "a < b"
  shows "days_before_month y a + days_in_month y a \<le> days_before_month y b"
proof -
  have "days_before_month y (a + 1) \<le> days_before_month y b"
    using assms(2) by (intro days_before_month_mono) simp
  then show ?thesis using days_before_month_step[OF assms(1)] by simp
qed

lemma ord2md_char:
  "ord2md y m0 n = (m, d) \<Longrightarrow> 1 \<le> m0 \<Longrightarrow>
   m0 \<le> m \<and> 1 \<le> d \<and> d \<le> days_in_month y m \<and>
   n + days_before_month y m0 + 1 = days_before_month y m + d"
proof (induction y m0 n arbitrary: m d rule: ord2md.induct)
  case (1 y m0 n)
  show ?case
  proof (cases "n < days_in_month y m0")
    case True
    then have "ord2md y m0 n = (m0, n + 1)" by (simp add: ord2md.simps)
    with "1.prems" True show ?thesis by auto
  next
    case False
    then have "ord2md y m0 n = ord2md y (m0 + 1) (n - days_in_month y m0)"
      by (subst ord2md.simps) simp
    with "1.prems" have e: "ord2md y (m0 + 1) (n - days_in_month y m0) = (m, d)" by simp
    from "1.IH"[OF False e] have
      "m0 + 1 \<le> m \<and> 1 \<le> d \<and> d \<le> days_in_month y m \<and>
       n - days_in_month y m0 + days_before_month y (m0 + 1) + 1 = days_before_month y m + d"
      by simp
    then show ?thesis
      using False days_before_month_step[OF "1.prems"(2), of y] by simp
  qed
qed

lemma ord2md_month_le_12:
  assumes "ord2md y 1 n = (m, d)" "n < days_in_year y"
  shows "m \<le> 12"
proof (rule ccontr)
  assume "\<not> m \<le> 12"
  then have "13 \<le> m" by simp
  then have "days_before_month y 13 \<le> days_before_month y m"
    by (rule days_before_month_mono)
  moreover from ord2md_char[OF assms(1)] have
    "1 \<le> d" "n + 1 = days_before_month y m + d" by simp_all
  ultimately show False using assms(2) by (simp add: days_before_month_13)
qed

lemma civil_fields:
  assumes "representable s"
  shows "\<exists>y m d. civil s us = \<lparr>year = y, month = m, day = d,
            hour = nat (s mod 86400) div 3600, minute = nat (s mod 86400) mod 3600 div 60,
            second = nat (s mod 86400) mod 60, microsecond = us\<rparr>
          \<and> 1 \<le> y \<and> y \<le> 9999 \<and> 1 \<le> m \<and> m \<le> 12 \<and> 1 \<le> d \<and> d \<le> days_in_month y m
          \<and> nat (s div 86400 + 719162) + 1 = days_before_year y + days_before_month y m + d"
proof -
  define n where "n = nat (s div 86400 + 719162)"
  obtain y doy where e1: "ord2y 1 n = (y, doy)" by (cases "ord2y 1 n")
  obtain m d where e2: "ord2md y 1 doy = (m, d)" by (cases "ord2md y 1 doy")
  from ord2y_char[OF e1] have c1: "1 \<le> y" "doy < days_in_year y"
    "n = days_before_year y + doy" by (simp_all add: days_before_year_def)
  from ord2md_char[OF e2] have c2: "1 \<le> m" "1 \<le> d" "d \<le> days_in_month y m"
    "doy + 1 = days_before_month y m + d" by simp_all
  have m12: "m \<le> 12" by (rule ord2md_month_le_12[OF e2 c1(2)])
  have "s div 86400 \<le> 253402300799 div 86400"
    using assms unfolding representable_def MAX_SECONDS_def by (intro zdiv_mono1) simp_all
  then have nle: "n \<le> 3652058"
    unfolding n_def by simp
  have y9999: "y \<le> 9999"
  proof (rule ccontr)
    assume "\<not> y \<le> 9999"
    then have "10000 \<le> y" by simp
    then have "days_before_year 10000 \<le> days_before_year y" by (rule days_before_year_mono)
    moreover have "days_before_year 10000 = 3652059" by (simp add: days_before_year_def)
    ultimately show False using c1(3) nle by simp
  qed
  have "civil s us = \<lparr>year = y, month = m, day = d,
            hour = nat (s mod 86400) div 3600, minute = nat (s mod 86400) mod 3600 div 60,
            second = nat (s mod 86400) mod 60, microsecond = us\<rparr>"
    unfolding civil_def Let_def n_def[symmetric] e1 using e2 by simp
  moreover have "nat (s div 86400 + 719162) + 1 = days_before_year y + days_before_month y m + d"
    using c1(3) c2(4) unfolding n_def by simp
  ultimately show ?thesis using c1(1) c2(1,2,3) m12 y9999 by blast
qed

section \<open>Digits, padding and strings\<close>

lemma of_char_digit: "k < 10 \<Longrightarrow> (of_char (digit k) :: nat) = 48 + k"
  by (simp add: digit_def)

lemma is_digit_digit: "k < 10 \<Longrightarrow> is_digit (digit k)"
  by (simp add: is_digit_def of_char_digit)

lemma digit_val_digit: "k < 10 \<Longrightarrow> digit_val (digit k) = k"
  by (simp add: digit_val_def of_char_digit)

lemma digit_0: "digit 0 = CHR ''0''"
proof -
  have "(of_char (digit 0) :: nat) = of_char (CHR ''0'')" by (simp add: digit_def)
  then show ?thesis by (simp only: of_char_eq_iff)
qed

lemma digit_inj: "a < 10 \<Longrightarrow> b < 10 \<Longrightarrow> digit a = digit b \<longleftrightarrow> a = b"
proof
  assume "a < 10" "b < 10" "digit a = digit b"
  then have "(of_char (digit a) :: nat) = of_char (digit b)" by simp
  with \<open>a < 10\<close> \<open>b < 10\<close> show "a = b" by (simp add: of_char_digit)
qed simp

lemma dec_small: "n < 10 \<Longrightarrow> dec n = [digit n]"
  by (subst dec.simps) simp

lemma dec_large: "10 \<le> n \<Longrightarrow> dec n = dec (n div 10) @ [digit (n mod 10)]"
  by (subst dec.simps) simp

lemma length_digs: "length (digs w n) = w"
  by (induction w arbitrary: n) simp_all

lemma digs_0: "digs w 0 = replicate w (CHR ''0'')"
  by (induction w) (simp_all add: digit_0 replicate_append_same)

lemma zpad_digs: "n < 10 ^ Suc w \<Longrightarrow> zpad (Suc w) n = digs (Suc w) n"
proof (induction w arbitrary: n)
  case 0
  then show ?case by (simp add: zpad_def dec_small)
next
  case (Suc w)
  show ?case
  proof (cases "n < 10")
    case True
    then show ?thesis
      using digs_0[of "Suc w"] by (simp add: zpad_def dec_small)
  next
    case False
    then have d: "dec n = dec (n div 10) @ [digit (n mod 10)]" by (simp add: dec_large)
    from Suc.prems have "n div 10 < 10 ^ Suc w" by simp
    from Suc.IH[OF this] have "zpad (Suc w) (n div 10) = digs (Suc w) (n div 10)" .
    then show ?thesis by (simp add: zpad_def d)
  qed
qed

lemma zpad_digs_pos: "0 < w \<Longrightarrow> n < 10 ^ w \<Longrightarrow> zpad w n = digs w n"
  using zpad_digs[of n "w - 1"] by simp

lemma zpad_2: "n < 100 \<Longrightarrow> zpad 2 n = digs 2 n"
  by (rule zpad_digs_pos) simp_all

lemma zpad_4: "n < 10000 \<Longrightarrow> zpad 4 n = digs 4 n"
  by (rule zpad_digs_pos) simp_all

lemma matches_digs:
  "matches (replicate w Digit @ ps) (digs w n @ cs) = matches ps cs"
proof (induction w arbitrary: n ps cs)
  case 0
  then show ?case by simp
next
  case (Suc w)
  have "matches (replicate (Suc w) Digit @ ps) (digs (Suc w) n @ cs)
        = matches (replicate w Digit @ (Digit # ps)) (digs w (n div 10) @ (digit (n mod 10) # cs))"
    by (simp add: replicate_app_Cons_same)
  also have "\<dots> = matches (Digit # ps) (digit (n mod 10) # cs)" by (rule Suc.IH)
  also have "\<dots> = matches ps cs" by (simp add: is_digit_digit)
  finally show ?case .
qed

lemma str_le_refl: "str_le s s"
  by (induction s) simp_all

lemma str_le_digs:
  "a < 10 ^ w \<Longrightarrow> b < 10 ^ w \<Longrightarrow>
   str_le (digs w a @ x) (digs w b @ y) \<longleftrightarrow> a < b \<or> (a = b \<and> str_le x y)"
proof (induction w arbitrary: a b x y)
  case 0
  then show ?case by simp
next
  case (Suc w)
  from Suc.prems have da: "a div 10 < 10 ^ w" and db: "b div 10 < 10 ^ w" by simp_all
  have ma: "a mod 10 < 10" and mb: "b mod 10 < 10" by simp_all
  have "str_le (digs (Suc w) a @ x) (digs (Suc w) b @ y)
        = str_le (digs w (a div 10) @ (digit (a mod 10) # x)) (digs w (b div 10) @ (digit (b mod 10) # y))"
    by simp
  also have "\<dots> \<longleftrightarrow> a div 10 < b div 10 \<or>
      (a div 10 = b div 10 \<and> str_le (digit (a mod 10) # x) (digit (b mod 10) # y))"
    by (rule Suc.IH[OF da db])
  also have "str_le (digit (a mod 10) # x) (digit (b mod 10) # y) \<longleftrightarrow>
      a mod 10 < b mod 10 \<or> (a mod 10 = b mod 10 \<and> str_le x y)"
    using ma mb by (simp add: of_char_digit digit_inj)
  also have "(a div 10 < b div 10 \<or>
      (a div 10 = b div 10 \<and> (a mod 10 < b mod 10 \<or> (a mod 10 = b mod 10 \<and> str_le x y))))
      \<longleftrightarrow> a < b \<or> (a = b \<and> str_le x y)"
  proof -
    define qa ra qb rb where "qa = a div 10" and "ra = a mod 10" and "qb = b div 10" and "rb = b mod 10"
    have ea: "a = 10 * qa + ra" and eb: "b = 10 * qb + rb" and "ra < 10" and "rb < 10"
      unfolding qa_def ra_def qb_def rb_def by simp_all
    then have 1: "a < b \<longleftrightarrow> qa < qb \<or> (qa = qb \<and> ra < rb)"
      and 2: "a = b \<longleftrightarrow> qa = qb \<and> ra = rb"
      by arith+
    show ?thesis unfolding 1 2 qa_def[symmetric] ra_def[symmetric] qb_def[symmetric] rb_def[symmetric] by blast
  qed
  finally show ?case .
qed

lemma nat_of_string_snoc: "nat_of_string (s @ [c]) = 10 * nat_of_string s + digit_val c"
  by (simp add: nat_of_string_def)

lemma nat_of_string_digs: "nat_of_string (digs w n) = n mod 10 ^ w"
proof (induction w arbitrary: n)
  case 0
  then show ?case by (simp add: nat_of_string_def)
next
  case (Suc w)
  have "nat_of_string (digs (Suc w) n) = 10 * (n div 10 mod 10 ^ w) + n mod 10"
    by (simp add: nat_of_string_snoc Suc.IH digit_val_digit)
  also have "\<dots> = n mod 10 ^ Suc w"
    by (simp add: mod_mult2_eq)
  finally show ?case .
qed

lemma startswith_append: "startswith (p @ r) p"
  by (induction p) simp_all

lemma contains_append: "contains (a @ sub @ b) sub"
proof (induction a)
  case Nil
  show ?case
  proof (cases "sub @ b")
    case Nil
    then show ?thesis by simp
  next
    case (Cons c cs)
    then show ?thesis using startswith_append[of sub b] by simp
  qed
next
  case (Cons c a)
  then show ?case by simp
qed

lemma matches_digs_end: "matches (replicate w Digit) (digs w n) = True"
  using matches_digs[of w "[]" n "[]"] by simp

lemma is_FormattedTime_stamp: "is_FormattedTime (stamp y m d hh mm ss)"
  unfolding is_FormattedTime_def FormattedTime_pattern_def stamp_def
  by (simp only: matches_digs matches_digs_end append_Cons append_Nil matches.simps simp_thms)

lemma length_stamp: "length (stamp y m d hh mm ss) = 19"
  by (simp add: stamp_def length_digs)

lemma slice_stamp:
  "slice (stamp y m d hh mm ss) 0 4 = digs 4 y"
  "slice (stamp y m d hh mm ss) 5 7 = digs 2 m"
  "slice (stamp y m d hh mm ss) 8 10 = digs 2 d"
  "slice (stamp y m d hh mm ss) 11 13 = digs 2 hh"
  "slice (stamp y m d hh mm ss) 14 16 = digs 2 mm"
  "slice (stamp y m d hh mm ss) 17 19 = digs 2 ss"
  by (simp_all add: slice_def stamp_def length_digs)

lemma str_le_stamp:
  assumes "y1 < 10000" "y2 < 10000" "m1 < 100" "m2 < 100" "d1 < 100" "d2 < 100"
    "h1 < 100" "h2 < 100" "n1 < 100" "n2 < 100" "s1 < 100" "s2 < 100"
  shows "str_le (stamp y1 m1 d1 h1 n1 s1) (stamp y2 m2 d2 h2 n2 s2) \<longleftrightarrow>
     y1 < y2 \<or> (y1 = y2 \<and> (m1 < m2 \<or> (m1 = m2 \<and> (d1 < d2 \<or> (d1 = d2 \<and>
       (h1 < h2 \<or> (h1 = h2 \<and> (n1 < n2 \<or> (n1 = n2 \<and> s1 \<le> s2)))))))))"
proof -
  have last: "str_le (digs 2 s1) (digs 2 s2) \<longleftrightarrow> s1 \<le> s2"
    using str_le_digs[of s1 2 s2 "[]" "[]"] assms by auto
  show ?thesis
    unfolding stamp_def using assms
    by (simp add: str_le_digs last)
qed

section \<open>Formatting a representable second\<close>

lemma strftime_stamp:
  assumes "year dt < 10000" "month dt < 100" "day dt < 100"
    "hour dt < 100" "minute dt < 100" "second dt < 100"
  shows "strftime dt = stamp (year dt) (month dt) (day dt) (hour dt) (minute dt) (second dt)"
  using assms by (simp add: strftime_def stamp_def zpad_2 zpad_4)

lemma time_of_day_bounds:
  "nat (L mod 86400) div 3600 \<le> 23"
  "nat (L mod 86400) mod 3600 div 60 \<le> 59"
  "nat (L mod 86400) mod 60 \<le> 59"
proof -
  define sod where "sod = nat (L mod 86400)"
  have sod: "sod < 86400" unfolding sod_def by simp
  then show "nat (L mod 86400) div 3600 \<le> 23" unfolding sod_def by simp
  have "sod mod 3600 < 3600" by simp
  then show "nat (L mod 86400) mod 3600 div 60 \<le> 59" unfolding sod_def by simp
  have "sod mod 60 < 60" by simp
  then show "nat (L mod 86400) mod 60 \<le> 59" unfolding sod_def by simp
qed

lemma strftime_civil:
  assumes "representable L"
  shows "\<exists>y m d. 1 \<le> y \<and> y \<le> 9999 \<and> 1 \<le> m \<and> m \<le> 12 \<and> 1 \<le> d \<and> d \<le> days_in_month y m
     \<and> nat (L div 86400 + 719162) + 1 = days_before_year y + days_before_month y m + d
     \<and> civil L us = \<lparr>year = y, month = m, day = d,
            hour = nat (L mod 86400) div 3600, minute = nat (L mod 86400) mod 3600 div 60,
            second = nat (L mod 86400) mod 60, microsecond = us\<rparr>
     \<and> strftime (civil L us) =
         stamp y m d (nat (L mod 86400) div 3600) (nat (L mod 86400) mod 3600 div 60)
           (nat (L mod 86400) mod 60)"
proof -
  define H M S where "H = nat (L mod 86400) div 3600"
    and "M = nat (L mod 86400) mod 3600 div 60" and "S = nat (L mod 86400) mod 60"
  from civil_fields[OF assms, of us] obtain y m d where
    c: "civil L us = \<lparr>year = y, month = m, day = d,
            hour = H, minute = M, second = S, microsecond = us\<rparr>"
    and b: "1 \<le> y" "y \<le> 9999" "1 \<le> m" "m \<le> 12" "1 \<le> d" "d \<le> days_in_month y m"
    and n: "nat (L div 86400 + 719162) + 1 = days_before_year y + days_before_month y m + d"
    unfolding H_def M_def S_def by blast
  have d31: "days_in_month y m \<le> 31" by (simp add: days_in_month_def)
  have y4: "y < 10000" using b(2) by simp
  have m2: "m < 100" using b(4) by simp
  have d2: "d < 100" using b(6) d31 by simp
  have "H \<le> 23" "M \<le> 59" "S \<le> 59"
    unfolding H_def M_def S_def by (rule time_of_day_bounds)+
  then have hms: "H < 100" "M < 100" "S < 100" by simp_all
  have sel: "year (civil L us) = y" "month (civil L us) = m" "day (civil L us) = d"
    "hour (civil L us) = H" "minute (civil L us) = M" "second (civil L us) = S"
    by (simp_all add: c)
  have "strftime (civil L us) = stamp (year (civil L us)) (month (civil L us)) (day (civil L us))
      (hour (civil L us)) (minute (civil L us)) (second (civil L us))"
    by (rule strftime_stamp) (simp_all only: sel y4 m2 d2 hms)
  then have "strftime (civil L us) = stamp y m d H M S" by (simp only: sel)
  with b n c show ?thesis unfolding H_def M_def S_def by blast
qed

lemma che_ore_sono_Inr:
  "che_ore_sono h = Inr s \<longleftrightarrow>
     (\<exists>tz. tzdb h TZ_NAME = Inr tz \<and> representable (secs (clock h)) \<and>
        representable (secs (clock h) + utcoffset tz (secs (clock h))) \<and>
        s = strftime (civil (secs (clock h) + utcoffset tz (secs (clock h))) (usec (clock h))))"
  unfolding che_ore_sono_def get_rome_tz_def datetime_now_def Let_def
  by (auto split: sum.splits lib_exception.splits)

lemma che_ore_sono_stamp:
  assumes "che_ore_sono h = Inr s"
  shows "\<exists>tz y m d. tzdb h TZ_NAME = Inr tz \<and>
      1 \<le> y \<and> y \<le> 9999 \<and> 1 \<le> m \<and> m \<le> 12 \<and> 1 \<le> d \<and> d \<le> days_in_month y m \<and>
      s = stamp y m d
           (nat ((secs (clock h) + utcoffset tz (secs (clock h))) mod 86400) div 3600)
           (nat ((secs (clock h) + utcoffset tz (secs (clock h))) mod 86400) mod 3600 div 60)
           (nat ((secs (clock h) + utcoffset tz (secs (clock h))) mod 86400) mod 60)"
proof -
  from assms obtain tz where tz: "tzdb h TZ_NAME = Inr tz"
    and r: "representable (secs (clock h) + utcoffset tz (secs (clock h)))"
    and s: "s = strftime (civil (secs (clock h) + utcoffset tz (secs (clock h))) (usec (clock h)))"
    unfolding che_ore_sono_Inr by blast
  from strftime_civil[OF r, of "usec (clock h)"] tz s show ?thesis by blast
qed

lemma strftime_civil_usec: "strftime (civil L us) = strftime (civil L us')"
  by (simp add: strftime_def civil_def Let_def split: prod.splits)

lemma civil_date_cong:
  assumes "L1 div 86400 = L2 div 86400"
  shows "year (civil L1 us1) = year (civil L2 us2) \<and> month (civil L1 us1) = month (civil L2 us2)
     \<and> day (civil L1 us1) = day (civil L2 us2)"
  unfolding civil_def Let_def assms by (simp split: prod.splits)

lemma che_ore_sono_host_at:
  assumes "db TZ_NAME = Inr tz" "representable t" "representable (t + utcoffset tz t)"
  shows "che_ore_sono (host_at db t us) = Inr (strftime (civil (t + utcoffset tz t) us))"
  unfolding che_ore_sono_Inr using assms by (simp add: host_at_def)

section \<open>Which exception leaves the handler\<close>







lemma get_che_ore_sono_HTTPException:
  "che_ore_sono h = Inl (HTTPException c d) \<Longrightarrow>
   get_che_ore_sono h = \<lparr>status_code = c, media_type = ''application/json'', body = Json_detail d\<rparr>"
  by (simp add: get_che_ore_sono_def)


section \<open>The handler at concrete instants\<close>

lemma digit_chars:
  "digit 1 = CHR ''1''" "digit 2 = CHR ''2''" "digit 3 = CHR ''3''"
  "digit 4 = CHR ''4''" "digit 5 = CHR ''5''" "digit 6 = CHR ''6''" "digit 7 = CHR ''7''"
  "digit 8 = CHR ''8''" "digit 9 = CHR ''9''"
proof -
  have k: "\<And>k c. k < 10 \<Longrightarrow> (of_char c :: nat) = 48 + k \<Longrightarrow> digit k = c"
  proof -
    fix k :: nat and c :: char
    assume "k < 10" "(of_char c :: nat) = 48 + k"
    then have "(of_char (digit k) :: nat) = of_char c" by (simp add: of_char_digit)
    then show "digit k = c" by (simp only: of_char_eq_iff)
  qed
  show "digit 1 = CHR ''1''" "digit 2 = CHR ''2''" "digit 3 = CHR ''3''"
  "digit 4 = CHR ''4''" "digit 5 = CHR ''5''" "digit 6 = CHR ''6''" "digit 7 = CHR ''7''"
  "digit 8 = CHR ''8''" "digit 9 = CHR ''9''"
    by (rule k; simp)+
qed

lemma digit_Suc_0: "digit (Suc 0) = CHR ''1''"
  using digit_chars(1) by simp

lemma digs_2: "digs 2 n = [digit (n div 10 mod 10), digit (n mod 10)]"
proof -
  have e: "(2::nat) = Suc (Suc 0)" by simp
  show ?thesis by (subst e) simp
qed

lemma digs_4:
  "digs 4 n = [digit (n div 10 div 10 div 10 mod 10), digit (n div 10 div 10 mod 10),
               digit (n div 10 mod 10), digit (n mod 10)]"
proof -
  have e: "(4::nat) = Suc (Suc (Suc (Suc 0)))" by simp
  show ?thesis by (subst e) simp
qed

lemma literal_59: "'':59:59'' = '':'' @ digs 2 59 @ '':'' @ digs 2 59"
  by (simp add: digs_2 digit_chars)

lemma literal_00: "'':00:00'' = '':'' @ digs 2 0 @ '':'' @ digs 2 0"
  by (simp add: digs_2 digit_0)

lemma che_ore_sono_eval:
  assumes db: "db TZ_NAME = Inr tz"
    and t: "representable t"
    and off: "utcoffset tz t = off"
    and L: "representable (t + off)"
    and y: "1 \<le> y" "days_before_year y \<le> nat ((t + off) div 86400 + 719162)"
      "nat ((t + off) div 86400 + 719162) < days_before_year y + days_in_year y"
    and md: "ord2md y 1 (nat ((t + off) div 86400 + 719162) - days_before_year y) = (m, d)"
  shows "che_ore_sono (host_at db t us) =
     Inr (stamp y m d (nat ((t + off) mod 86400) div 3600)
            (nat ((t + off) mod 86400) mod 3600 div 60) (nat ((t + off) mod 86400) mod 60))"
proof -
  have c: "civil (t + off) us = \<lparr>year = y, month = m, day = d,
            hour = nat ((t + off) mod 86400) div 3600,
            minute = nat ((t + off) mod 86400) mod 3600 div 60,
            second = nat ((t + off) mod 86400) mod 60, microsecond = us\<rparr>"
    unfolding civil_def Let_def ord2y_closed[OF y] using md by simp
  from strftime_civil[OF L, of us] obtain y' m' d' where
    c': "civil (t + off) us = \<lparr>year = y', month = m', day = d',
            hour = nat ((t + off) mod 86400) div 3600,
            minute = nat ((t + off) mod 86400) mod 3600 div 60,
            second = nat ((t + off) mod 86400) mod 60, microsecond = us\<rparr>"
    and s: "strftime (civil (t + off) us) =
         stamp y' m' d' (nat ((t + off) mod 86400) div 3600)
            (nat ((t + off) mod 86400) mod 3600 div 60) (nat ((t + off) mod 86400) mod 60)"
    by blast
  from c c' have "y' = y" "m' = m" "d' = d" by simp_all
  with s have st: "strftime (civil (t + off) us) =
     stamp y m d (nat ((t + off) mod 86400) div 3600)
            (nat ((t + off) mod 86400) mod 3600 div 60) (nat ((t + off) mod 86400) mod 60)"
    by simp
  have "che_ore_sono (host_at db t us) = Inr (strftime (civil (t + off) us))"
    unfolding che_ore_sono_Inr using db t off L by (simp add: host_at_def)
  with st show ?thesis by simp
qed

lemmas eval_simps =
  tzdb_rome_def TZ_NAME_def representable_def MIN_SECONDS_def MAX_SECONDS_def
  utcoffset_def rome_2024_def days_before_year_def days_in_year_def is_leap_def
  ord2md.simps days_in_month_def

lemmas stamp_simps = stamp_def digs_2 digs_4 digit_chars digit_0 digit_Suc_0

lemma rome_2024_03_15:
  "che_ore_sono (host_at tzdb_rome 1710507909 us) = Inr ''2024-03-15 14:05:09''"
proof -
  have "che_ore_sono (host_at tzdb_rome 1710507909 us) =
     Inr (stamp 2024 3 15 (nat ((1710507909 + 3600) mod 86400) div 3600)
            (nat ((1710507909 + 3600) mod 86400) mod 3600 div 60)
            (nat ((1710507909 + 3600) mod 86400) mod 60))"
    by (rule che_ore_sono_eval[where tz = rome_2024]) (simp_all add: eval_simps)
  then show ?thesis by (simp add: stamp_def digs_2 digs_4 digit_chars digit_0 digit_Suc_0)
qed

lemma rome_2024_03_31_before:
  "che_ore_sono (host_at tzdb_rome 1711846799 us) = Inr ''2024-03-31 01:59:59''"
proof -
  have "che_ore_sono (host_at tzdb_rome 1711846799 us) =
     Inr (stamp 2024 3 31 (nat ((1711846799 + 3600) mod 86400) div 3600)
            (nat ((1711846799 + 3600) mod 86400) mod 3600 div 60)
            (nat ((1711846799 + 3600) mod 86400) mod 60))"
    by (rule che_ore_sono_eval[where tz = rome_2024]) (simp_all add: eval_simps)
  then show ?thesis by (simp add: stamp_simps)
qed

lemma rome_2024_03_31_after:
  "che_ore_sono (host_at tzdb_rome 1711846800 us) = Inr ''2024-03-31 03:00:00''"
proof -
  have "che_ore_sono (host_at tzdb_rome 1711846800 us) =
     Inr (stamp 2024 3 31 (nat ((1711846800 + 7200) mod 86400) div 3600)
            (nat ((1711846800 + 7200) mod 86400) mod 3600 div 60)
            (nat ((1711846800 + 7200) mod 86400) mod 60))"
    by (rule che_ore_sono_eval[where tz = rome_2024]) (simp_all add: eval_simps)
  then show ?thesis by (simp add: stamp_simps)
qed

lemma rome_2024_10_27_before:
  "che_ore_sono (host_at tzdb_rome 1729990799 us) = Inr ''2024-10-27 02:59:59''"
proof -
  have "che_ore_sono (host_at tzdb_rome 1729990799 us) =
     Inr (stamp 2024 10 27 (nat ((1729990799 + 7200) mod 86400) div 3600)
            (nat ((1729990799 + 7200) mod 86400) mod 3600 div 60)
            (nat ((1729990799 + 7200) mod 86400) mod 60))"
    by (rule che_ore_sono_eval[where tz = rome_2024]) (simp_all add: eval_simps)
  then show ?thesis by (simp add: stamp_simps)
qed

lemma rome_2024_10_27_after:
  "che_ore_sono (host_at tzdb_rome 1729990800 us) = Inr ''2024-10-27 02:00:00''"
proof -
  have "che_ore_sono (host_at tzdb_rome 1729990800 us) =
     Inr (stamp 2024 10 27 (nat ((1729990800 + 3600) mod 86400) div 3600)
            (nat ((1729990800 + 3600) mod 86400) mod 3600 div 60)
            (nat ((1729990800 + 3600) mod 86400) mod 60))"
    by (rule che_ore_sono_eval[where tz = rome_2024]) (simp_all add: eval_simps)
  then show ?thesis by (simp add: stamp_simps)
qed





lemma tzdb_missing_TZ_NAME:
  "tzdb (host_at tzdb_missing t us) TZ_NAME =
     Inl (ZoneInfoNotFoundError ([CHR 0x27] @ ''No time zone found with key Europe/Rome'' @ [CHR 0x27]))"
  by (simp add: host_at_def tzdb_missing_def TZ_NAME_def)



section \<open>Later seconds, later strings\<close>

lemma days_in_month_le_before:
  assumes "1 \<le> m" "m \<le> 12" "d \<le> days_in_month y m"
  shows "days_before_month y m + d \<le> days_in_year y"
proof -
  have "days_before_month y (m + 1) \<le> days_before_month y 13"
    using assms(2) by (intro days_before_month_mono) simp
  then show ?thesis
    using days_before_month_step[OF assms(1), of y] assms(3) by (simp add: days_before_month_13)
qed

lemma date_lex:
  assumes v1: "1 \<le> y1" "1 \<le> m1" "m1 \<le> 12" "1 \<le> d1" "d1 \<le> days_in_month y1 m1"
    and v2: "1 \<le> y2" "1 \<le> m2" "m2 \<le> 12" "1 \<le> d2" "d2 \<le> days_in_month y2 m2"
    and le: "days_before_year y1 + days_before_month y1 m1 + d1
              \<le> days_before_year y2 + days_before_month y2 m2 + d2"
  shows "y1 < y2 \<or> (y1 = y2 \<and> (m1 < m2 \<or> (m1 = m2 \<and> d1 \<le> d2)))"
proof -
  have ny: "\<not> y2 < y1"
  proof
    assume "y2 < y1"
    from days_before_year_strict[OF v2(1) this]
    have "days_before_year y2 + days_in_year y2 \<le> days_before_year y1" .
    moreover from days_in_month_le_before[OF v2(2,3,5)]
    have "days_before_month y2 m2 + d2 \<le> days_in_year y2" .
    ultimately show False using le v1(4) by simp
  qed
  have nm: "y1 = y2 \<Longrightarrow> \<not> m2 < m1"
  proof
    assume e: "y1 = y2" and "m2 < m1"
    from days_before_month_strict[OF v2(2) this(2), of y2]
    have "days_before_month y2 m2 + days_in_month y2 m2 \<le> days_before_month y2 m1" .
    then show False using le v1(4) v2(5) e by simp
  qed
  have nd: "y1 = y2 \<Longrightarrow> m1 = m2 \<Longrightarrow> d1 \<le> d2"
    using le by simp
  from ny nm nd show ?thesis by (metis not_less_iff_gr_or_eq)
qed

lemma date_unique:
  assumes v1: "1 \<le> y1" "1 \<le> m1" "m1 \<le> 12" "1 \<le> d1" "d1 \<le> days_in_month y1 m1"
    and v2: "1 \<le> y2" "1 \<le> m2" "m2 \<le> 12" "1 \<le> d2" "d2 \<le> days_in_month y2 m2"
    and eq: "days_before_year y1 + days_before_month y1 m1 + d1
              = days_before_year y2 + days_before_month y2 m2 + d2"
  shows "y1 = y2 \<and> m1 = m2 \<and> d1 = d2"
proof -
  from date_lex[OF v1 v2] eq
  have a: "y1 < y2 \<or> (y1 = y2 \<and> (m1 < m2 \<or> (m1 = m2 \<and> d1 \<le> d2)))" by simp
  from date_lex[OF v2 v1] eq
  have b: "y2 < y1 \<or> (y2 = y1 \<and> (m2 < m1 \<or> (m2 = m1 \<and> d2 \<le> d1)))" by simp
  from a b show ?thesis by auto
qed

lemma divmod_lex_nat:
  fixes a b k :: nat
  assumes "a \<le> b"
  shows "a div k < b div k \<or> (a div k = b div k \<and> a mod k \<le> b mod k)"
proof (cases "a div k = b div k")
  case True
  have "k * (a div k) + a mod k \<le> k * (b div k) + b mod k"
    using assms by (simp only: mult_div_mod_eq)
  then have "k * (b div k) + a mod k \<le> k * (b div k) + b mod k"
    by (simp only: True)
  then have "a mod k \<le> b mod k" by (simp only: add_le_cancel_left)
  with True show ?thesis by blast
next
  case False
  moreover have "a div k \<le> b div k" using assms by (rule div_le_mono)
  ultimately show ?thesis by simp
qed

lemma divmod_lex_int:
  fixes a b :: int
  assumes "a \<le> b"
  shows "a div 86400 < b div 86400 \<or> (a div 86400 = b div 86400 \<and> a mod 86400 \<le> b mod 86400)"
proof (cases "a div 86400 = b div 86400")
  case True
  have "86400 * (a div 86400) + a mod 86400 \<le> 86400 * (b div 86400) + b mod 86400"
    using assms by (simp only: mult_div_mod_eq)
  then have "86400 * (b div 86400) + a mod 86400 \<le> 86400 * (b div 86400) + b mod 86400"
    by (simp only: True)
  then have "a mod 86400 \<le> b mod 86400" by (simp only: add_le_cancel_left)
  with True show ?thesis by blast
next
  case False
  moreover have "a div 86400 \<le> b div 86400" using assms by (intro zdiv_mono1) simp_all
  ultimately show ?thesis by simp
qed

lemma time_of_day_lex:
  fixes a b :: nat
  assumes "a \<le> b"
  shows "a div 3600 < b div 3600 \<or> (a div 3600 = b div 3600 \<and>
     (a mod 3600 div 60 < b mod 3600 div 60 \<or>
       (a mod 3600 div 60 = b mod 3600 div 60 \<and> a mod 60 \<le> b mod 60)))"
proof -
  have m: "\<And>x::nat. x mod 3600 mod 60 = x mod 60"
    by (rule mod_mod_cancel) simp
  from divmod_lex_nat[OF assms, of 3600] show ?thesis
  proof
    assume "a div 3600 < b div 3600"
    then show ?thesis by simp
  next
    assume h: "a div 3600 = b div 3600 \<and> a mod 3600 \<le> b mod 3600"
    then have "a mod 3600 \<le> b mod 3600" by simp
    from divmod_lex_nat[OF this, of 60] h show ?thesis by (simp add: m)
  qed
qed

lemma strftime_civil_mono:
  assumes r1: "representable L1" and r2: "representable L2" and le: "L1 \<le> L2"
  shows "str_le (strftime (civil L1 us1)) (strftime (civil L2 us2))"
proof -
  define H1 M1 S1 where "H1 = nat (L1 mod 86400) div 3600"
    and "M1 = nat (L1 mod 86400) mod 3600 div 60" and "S1 = nat (L1 mod 86400) mod 60"
  define H2 M2 S2 where "H2 = nat (L2 mod 86400) div 3600"
    and "M2 = nat (L2 mod 86400) mod 3600 div 60" and "S2 = nat (L2 mod 86400) mod 60"
  define n1 n2 where "n1 = nat (L1 div 86400 + 719162)" and "n2 = nat (L2 div 86400 + 719162)"
  from strftime_civil[OF r1, of us1] obtain y1 m1 d1 where
    v1: "1 \<le> y1" "1 \<le> m1" "m1 \<le> 12" "1 \<le> d1" "d1 \<le> days_in_month y1 m1"
    and y1: "y1 \<le> 9999"
    and e1: "n1 + 1 = days_before_year y1 + days_before_month y1 m1 + d1"
    and s1: "strftime (civil L1 us1) = stamp y1 m1 d1 H1 M1 S1"
    unfolding H1_def M1_def S1_def n1_def by blast
  from strftime_civil[OF r2, of us2] obtain y2 m2 d2 where
    v2: "1 \<le> y2" "1 \<le> m2" "m2 \<le> 12" "1 \<le> d2" "d2 \<le> days_in_month y2 m2"
    and y2: "y2 \<le> 9999"
    and e2: "n2 + 1 = days_before_year y2 + days_before_month y2 m2 + d2"
    and s2: "strftime (civil L2 us2) = stamp y2 m2 d2 H2 M2 S2"
    unfolding H2_def M2_def S2_def n2_def by blast
  have lo1: "0 \<le> L1 div 86400 + 719162"
  proof -
    have "(- 62135596800) div 86400 \<le> L1 div 86400"
      using r1 unfolding representable_def MIN_SECONDS_def by (intro zdiv_mono1) simp_all
    then show ?thesis by simp
  qed
  have b1: "H1 \<le> 23" "M1 \<le> 59" "S1 \<le> 59"
    unfolding H1_def M1_def S1_def by (rule time_of_day_bounds)+
  have b2: "H2 \<le> 23" "M2 \<le> 59" "S2 \<le> 59"
    unfolding H2_def M2_def S2_def by (rule time_of_day_bounds)+
  have d31: "days_in_month y1 m1 \<le> 31" "days_in_month y2 m2 \<le> 31"
    by (simp_all add: days_in_month_def)
  have w: "y1 < 10000" "y2 < 10000" "m1 < 100" "m2 < 100" "d1 < 100" "d2 < 100"
    "H1 < 100" "H2 < 100" "M1 < 100" "M2 < 100" "S1 < 100" "S2 < 100"
    using y1 y2 v1 v2 d31 b1 b2 by simp_all
  have lex: "y1 < y2 \<or> (y1 = y2 \<and> (m1 < m2 \<or> (m1 = m2 \<and> (d1 < d2 \<or> (d1 = d2 \<and>
       (H1 < H2 \<or> (H1 = H2 \<and> (M1 < M2 \<or> (M1 = M2 \<and> S1 \<le> S2)))))))))"
  proof -
    from divmod_lex_int[OF le] show ?thesis
    proof
      assume "L1 div 86400 < L2 div 86400"
      then have "n1 < n2" unfolding n1_def n2_def using lo1 by simp
      then have lt: "days_before_year y1 + days_before_month y1 m1 + d1
          < days_before_year y2 + days_before_month y2 m2 + d2"
        using e1 e2 by simp
      then have "days_before_year y1 + days_before_month y1 m1 + d1
          \<le> days_before_year y2 + days_before_month y2 m2 + d2" by simp
      from date_lex[OF v1 v2 this] lt show ?thesis by auto
    next
      assume h: "L1 div 86400 = L2 div 86400 \<and> L1 mod 86400 \<le> L2 mod 86400"
      then have "n1 = n2" unfolding n1_def n2_def by simp
      then have "days_before_year y1 + days_before_month y1 m1 + d1
          = days_before_year y2 + days_before_month y2 m2 + d2"
        using e1 e2 by simp
      from date_unique[OF v1 v2 this] have same: "y1 = y2" "m1 = m2" "d1 = d2" by simp_all
      from h have "L1 mod 86400 \<le> L2 mod 86400" by blast
      then have "nat (L1 mod 86400) \<le> nat (L2 mod 86400)" by (rule nat_mono)
      from time_of_day_lex[OF this] same show ?thesis
        unfolding H1_def M1_def S1_def H2_def M2_def S2_def by simp
    qed
  qed
  show ?thesis unfolding s1 s2 str_le_stamp[OF w] by (rule lex)
qed

section \<open>The claims\<close>

text \<open>
  C1. Every string that \<open>che_ore_sono\<close> returns matches
  \<open>^\d{4}-\d{2}-\d{2} \d{2}:\d{2}:\d{2}$\<close>: four digits, a hyphen, two digits, a hyphen,
  two digits, a space, and three groups of two digits separated by colons, whatever the
  clock of the host reads.
\<close>

theorem che_ore_sono_matches_pattern:
  "che_ore_sono h = Inr s \<Longrightarrow> is_FormattedTime s"
proof -
  assume "che_ore_sono h = Inr s"
  from che_ore_sono_stamp[OF this] obtain y m d hh mm ss where "s = stamp y m d hh mm ss"
    by blast
  then show ?thesis by (simp add: is_FormattedTime_stamp)
qed

theorem che_ore_sono_matches_pattern_witness:
  "che_ore_sono (host_at tzdb_rome 1710507909 0) = Inr ''2024-03-15 14:05:09'' \<and>
   is_FormattedTime ''2024-03-15 14:05:09''"
proof -
  have e: "che_ore_sono (host_at tzdb_rome 1710507909 0) = Inr ''2024-03-15 14:05:09''"
    by (rule rome_2024_03_15)
  from che_ore_sono_matches_pattern[OF e] e show ?thesis by simp
qed

text \<open>
  C2. When \<open>ZoneInfo("Europe/Rome")\<close> raises \<open>ZoneInfoNotFoundError\<close>, the handler fails
  with the HTTP 500 exception whose detail is the remediation hint, and no string is
  returned.
\<close>

theorem che_ore_sono_zone_not_found:
  assumes "tzdb h TZ_NAME = Inl (ZoneInfoNotFoundError exc)"
  shows "che_ore_sono h = Inl (HTTPException 500 (remediation_detail exc)) \<and>
     (\<forall>s. che_ore_sono h \<noteq> Inr s) \<and>
     contains (remediation_detail exc) ''Install the ''"
proof -
  have 1: "che_ore_sono h = Inl (HTTPException 500 (remediation_detail exc))"
    by (simp add: che_ore_sono_def get_rome_tz_def assms)
  have 2: "contains (remediation_detail exc) ''Install the ''"
    unfolding remediation_detail_def
    using contains_append[of "''Timezone data for '' @ [CHR 0x27] @ TZ_NAME @ [CHR 0x27] @ '' not found: '' @ exc @ ''. ''" "''Install the ''"]
    by simp
  from 1 2 show ?thesis by simp
qed

theorem che_ore_sono_zone_not_found_witness:
  "tzdb (host_at tzdb_missing 1710507909 0) TZ_NAME =
     Inl (ZoneInfoNotFoundError ([CHR 0x27] @ ''No time zone found with key Europe/Rome'' @ [CHR 0x27])) \<and>
   che_ore_sono (host_at tzdb_missing 1710507909 0) =
     Inl (HTTPException 500 (remediation_detail
       ([CHR 0x27] @ ''No time zone found with key Europe/Rome'' @ [CHR 0x27]))) \<and>
   (\<forall>s. che_ore_sono (host_at tzdb_missing 1710507909 0) \<noteq> Inr s) \<and>
   contains (remediation_detail ([CHR 0x27] @ ''No time zone found with key Europe/Rome'' @ [CHR 0x27]))
     ''Install the ''"
proof -
  have e: "tzdb (host_at tzdb_missing 1710507909 0) TZ_NAME =
     Inl (ZoneInfoNotFoundError ([CHR 0x27] @ ''No time zone found with key Europe/Rome'' @ [CHR 0x27]))"
    by (simp add: host_at_def tzdb_missing_def TZ_NAME_def)
  from che_ore_sono_zone_not_found[OF e] e show ?thesis by blast
qed

text \<open>
  C3. The offset is looked up in the zone's rules at the instant of each call. Where the
  rules raise the offset by one hour at instant \<open>t\<close>, and \<open>t\<close> is \<open>k\<close> o'clock in the
  local time valid until then, the call at \<open>t - 1\<close> returns \<open>(k-1):59:59\<close> and the call at
  \<open>t\<close> returns \<open>(k+1):00:00\<close> of the same date: the hour \<open>k\<close> is skipped. Both calls
  return. For Europe/Rome on 2024-03-31 this is 01:59:59 followed by 03:00:00.
\<close>

theorem che_ore_sono_spring_forward:
  assumes db: "db TZ_NAME = Inr tz"
    and before: "utcoffset tz (t - 1) = off"
    and after: "utcoffset tz t = off + 3600"
    and loc: "(t + off) mod 86400 = 3600 * int k" and k: "1 \<le> k" "k \<le> 22"
    and r: "representable (t - 1)" "representable t"
      "representable (t - 1 + off)" "representable (t + (off + 3600))"
  shows "\<exists>date. length date = 10 \<and>
     che_ore_sono (host_at db (t - 1) us) = Inr (date @ '' '' @ zpad 2 (k - 1) @ '':59:59'') \<and>
     che_ore_sono (host_at db t us') = Inr (date @ '' '' @ zpad 2 (k + 1) @ '':00:00'')"
proof -
  define q where "q = (t + off) div 86400"
  define L1 L2 where "L1 = t - 1 + off" and "L2 = t + (off + 3600)"
  have "86400 * q + (t + off) mod 86400 = t + off"
    unfolding q_def by (rule mult_div_mod_eq)
  then have e: "t + off = 86400 * q + 3600 * int k" using loc by simp
  have e1: "L1 = 86400 * q + (3600 * int k - 1)" unfolding L1_def using e by simp
  have e2: "L2 = 86400 * q + (3600 * int k + 3600)" unfolding L2_def using e by simp
  have k1: "0 \<le> 3600 * int k - 1" "3600 * int k - 1 < 86400" using k by simp_all
  have k2: "0 \<le> 3600 * int k + 3600" "3600 * int k + 3600 < 86400" using k by simp_all
  have d1: "L1 div 86400 = q" by (rule int_div_pos_eq[OF e1 k1])
  have m1: "L1 mod 86400 = 3600 * int k - 1" by (rule int_mod_pos_eq[OF e1 k1])
  have d2: "L2 div 86400 = q" by (rule int_div_pos_eq[OF e2 k2])
  have m2: "L2 mod 86400 = 3600 * int k + 3600" by (rule int_mod_pos_eq[OF e2 k2])
  obtain j where j: "k = Suc j" using k(1) by (cases k) simp_all
  have n1: "nat (L1 mod 86400) = 3600 * j + 3599" unfolding m1 j by simp
  have n2: "nat (L2 mod 86400) = 3600 * (k + 1)" unfolding m2 by (simp add: nat_add_distrib nat_mult_distrib)
  have mm: "\<And>x::nat. x mod 60 = x mod 3600 mod 60"
    by (simp add: mod_mod_cancel)
  have t1a: "nat (L1 mod 86400) div 3600 = k - 1" and t1r: "nat (L1 mod 86400) mod 3600 = 3599"
    unfolding n1 j by simp_all
  have t1: "nat (L1 mod 86400) div 3600 = k - 1" "nat (L1 mod 86400) mod 3600 div 60 = 59"
    "nat (L1 mod 86400) mod 60 = 59"
    using t1a t1r mm[of "nat (L1 mod 86400)"] by simp_all
  have t2a: "nat (L2 mod 86400) div 3600 = k + 1" and t2r: "nat (L2 mod 86400) mod 3600 = 0"
    unfolding n2 by simp_all
  have t2: "nat (L2 mod 86400) div 3600 = k + 1" "nat (L2 mod 86400) mod 3600 div 60 = 0"
    "nat (L2 mod 86400) mod 60 = 0"
    using t2a t2r mm[of "nat (L2 mod 86400)"] by simp_all
  have r1: "representable L1" and r2: "representable L2" unfolding L1_def L2_def by (rule r)+
  from strftime_civil[OF r1, of us] obtain y m d where
    b: "y \<le> 9999" "m \<le> 12" "d \<le> days_in_month y m"
    and c1: "civil L1 us = \<lparr>year = y, month = m, day = d,
            hour = nat (L1 mod 86400) div 3600, minute = nat (L1 mod 86400) mod 3600 div 60,
            second = nat (L1 mod 86400) mod 60, microsecond = us\<rparr>"
    and s1: "strftime (civil L1 us) = stamp y m d (nat (L1 mod 86400) div 3600)
        (nat (L1 mod 86400) mod 3600 div 60) (nat (L1 mod 86400) mod 60)"
    by blast
  from strftime_civil[OF r2, of us'] obtain y' m' d' where
    c2: "civil L2 us' = \<lparr>year = y', month = m', day = d',
            hour = nat (L2 mod 86400) div 3600, minute = nat (L2 mod 86400) mod 3600 div 60,
            second = nat (L2 mod 86400) mod 60, microsecond = us'\<rparr>"
    and s2: "strftime (civil L2 us') = stamp y' m' d' (nat (L2 mod 86400) div 3600)
        (nat (L2 mod 86400) mod 3600 div 60) (nat (L2 mod 86400) mod 60)"
    by blast
  have "L1 div 86400 = L2 div 86400" using d1 d2 by simp
  from civil_date_cong[OF this, of us us'] have same: "y' = y" "m' = m" "d' = d"
    unfolding c1 c2 by simp_all
  define date where "date = digs 4 y @ ''-'' @ digs 2 m @ ''-'' @ digs 2 d"
  have len: "length date = 10" unfolding date_def by (simp add: length_digs)
  have z1: "zpad 2 (k - 1) = digs 2 (k - 1)" using k by (intro zpad_2) simp
  have z2: "zpad 2 (k + 1) = digs 2 (k + 1)" using k by (intro zpad_2) simp
  have f1: "strftime (civil L1 us) = date @ '' '' @ zpad 2 (k - 1) @ '':59:59''"
    unfolding s1 t1 z1 literal_59 date_def stamp_def by simp
  have f2: "strftime (civil L2 us') = date @ '' '' @ zpad 2 (k + 1) @ '':00:00''"
    unfolding s2 t2 z2 literal_00 date_def stamp_def same by simp
  have h1: "che_ore_sono (host_at db (t - 1) us) = Inr (strftime (civil L1 us))"
    using che_ore_sono_host_at[of db tz "t - 1" us] db r before unfolding L1_def by simp
  have h2: "che_ore_sono (host_at db t us') = Inr (strftime (civil L2 us'))"
    using che_ore_sono_host_at[of db tz t us'] db r after unfolding L2_def by simp
  from len h1 h2 f1 f2 show ?thesis by auto
qed

theorem che_ore_sono_spring_forward_witness:
  "tzdb_rome TZ_NAME = Inr rome_2024 \<and>
   utcoffset rome_2024 (1711846800 - 1) = 3600 \<and>
   utcoffset rome_2024 1711846800 = 3600 + 3600 \<and>
   (1711846800 + 3600) mod 86400 = 3600 * int 2 \<and> (1::nat) \<le> 2 \<and> (2::nat) \<le> 22 \<and>
   representable (1711846800 - 1) \<and> representable 1711846800 \<and>
   representable (1711846800 - 1 + 3600) \<and> representable (1711846800 + (3600 + 3600)) \<and>
   (\<exists>date. length date = 10 \<and>
     che_ore_sono (host_at tzdb_rome (1711846800 - 1) 0) = Inr (date @ '' '' @ zpad 2 (2 - 1) @ '':59:59'') \<and>
     che_ore_sono (host_at tzdb_rome 1711846800 0) = Inr (date @ '' '' @ zpad 2 (2 + 1) @ '':00:00'')) \<and>
   che_ore_sono (host_at tzdb_rome 1711846799 0) = Inr ''2024-03-31 01:59:59'' \<and>
   che_ore_sono (host_at tzdb_rome 1711846800 0) = Inr ''2024-03-31 03:00:00''"
proof -
  have a: "tzdb_rome TZ_NAME = Inr rome_2024" by (simp add: tzdb_rome_def TZ_NAME_def)
  have b: "utcoffset rome_2024 (1711846800 - 1) = 3600"
    and c: "utcoffset rome_2024 1711846800 = 3600 + 3600"
    by (simp_all add: utcoffset_def rome_2024_def)
  have d: "(1711846800 + 3600) mod 86400 = 3600 * int 2" by simp
  have k: "(1::nat) \<le> 2" "(2::nat) \<le> 22" by simp_all
  have r: "representable (1711846800 - 1)" "representable 1711846800"
    "representable (1711846800 - 1 + 3600)" "representable (1711846800 + (3600 + 3600))"
    by (simp_all add: representable_def MIN_SECONDS_def MAX_SECONDS_def)
  from che_ore_sono_spring_forward[of tzdb_rome rome_2024 1711846800 3600 2 0 0, OF a b c d k r]
    a b c d k r rome_2024_03_31_before[of 0] rome_2024_03_31_after[of 0]
  show ?thesis by blast
qed

text \<open>
  C4. Two calls that see the same zone data and whose clock readings lie in the same
  second return the same result: the microseconds, and every other part of the host, have
  no influence.
\<close>

theorem che_ore_sono_same_second:
  assumes "tzdb h1 TZ_NAME = tzdb h2 TZ_NAME" "secs (clock h1) = secs (clock h2)"
  shows "che_ore_sono h1 = che_ore_sono h2"
  unfolding che_ore_sono_def get_rome_tz_def datetime_now_def Let_def assms
  using strftime_civil_usec[of _ "usec (clock h1)" "usec (clock h2)"]
  by (auto split: sum.splits lib_exception.splits)

theorem che_ore_sono_same_second_witness:
  "tzdb (host_at tzdb_rome 1711846799 0) TZ_NAME = tzdb (host_at tzdb_rome 1711846799 999999) TZ_NAME \<and>
   secs (clock (host_at tzdb_rome 1711846799 0)) = secs (clock (host_at tzdb_rome 1711846799 999999)) \<and>
   usec (clock (host_at tzdb_rome 1711846799 0)) \<noteq> usec (clock (host_at tzdb_rome 1711846799 999999)) \<and>
   che_ore_sono (host_at tzdb_rome 1711846799 0) = che_ore_sono (host_at tzdb_rome 1711846799 999999)"
  using che_ore_sono_same_second[of "host_at tzdb_rome 1711846799 0" "host_at tzdb_rome 1711846799 999999"]
  by (simp add: host_at_def)

text \<open>
  C5, as the specification states it, fails when the clocks go back: one second after
  2024-10-27 02:59:59 (CEST) the handler returns 2024-10-27 02:00:00 (CET), a smaller
  string.
\<close>

theorem che_ore_sono_fall_back_decreases:
  "instant_le (clock (host_at tzdb_rome 1729990799 0)) (clock (host_at tzdb_rome 1729990800 0)) \<and>
   che_ore_sono (host_at tzdb_rome 1729990799 0) = Inr ''2024-10-27 02:59:59'' \<and>
   che_ore_sono (host_at tzdb_rome 1729990800 0) = Inr ''2024-10-27 02:00:00'' \<and>
   \<not> str_le ''2024-10-27 02:59:59'' ''2024-10-27 02:00:00''"
proof -
  have 1: "instant_le (clock (host_at tzdb_rome 1729990799 0)) (clock (host_at tzdb_rome 1729990800 0))"
    by (simp add: instant_le_def host_at_def)
  have 2: "\<not> str_le ''2024-10-27 02:59:59'' ''2024-10-27 02:00:00''"
    by simp
  from 1 2 rome_2024_10_27_before[of 0] rome_2024_10_27_after[of 0] show ?thesis by blast
qed

text \<open>
  C5, amended. When the clock has not gone back and the UTC offset of the zone at the
  later reading is not smaller than at the earlier one, the later string is greater than
  or equal to the earlier one, character by character.
\<close>

theorem che_ore_sono_monotone:
  assumes db1: "tzdb h1 TZ_NAME = Inr tz" and db2: "tzdb h2 TZ_NAME = Inr tz"
    and clk: "instant_le (clock h1) (clock h2)"
    and off: "utcoffset tz (secs (clock h1)) \<le> utcoffset tz (secs (clock h2))"
    and s1: "che_ore_sono h1 = Inr s1" and s2: "che_ore_sono h2 = Inr s2"
  shows "str_le s1 s2"
proof -
  from s1 db1 have r1: "representable (secs (clock h1) + utcoffset tz (secs (clock h1)))"
    and e1: "s1 = strftime (civil (secs (clock h1) + utcoffset tz (secs (clock h1))) (usec (clock h1)))"
    unfolding che_ore_sono_Inr by simp_all
  from s2 db2 have r2: "representable (secs (clock h2) + utcoffset tz (secs (clock h2)))"
    and e2: "s2 = strftime (civil (secs (clock h2) + utcoffset tz (secs (clock h2))) (usec (clock h2)))"
    unfolding che_ore_sono_Inr by simp_all
  from clk have "secs (clock h1) \<le> secs (clock h2)"
    unfolding instant_le_def by auto
  with off have "secs (clock h1) + utcoffset tz (secs (clock h1))
      \<le> secs (clock h2) + utcoffset tz (secs (clock h2))" by simp
  from strftime_civil_mono[OF r1 r2 this] show ?thesis unfolding e1 e2 .
qed

theorem che_ore_sono_monotone_witness:
  "tzdb (host_at tzdb_rome 1711846799 0) TZ_NAME = Inr rome_2024 \<and>
   tzdb (host_at tzdb_rome 1711846800 0) TZ_NAME = Inr rome_2024 \<and>
   instant_le (clock (host_at tzdb_rome 1711846799 0)) (clock (host_at tzdb_rome 1711846800 0)) \<and>
   utcoffset rome_2024 (secs (clock (host_at tzdb_rome 1711846799 0)))
     \<le> utcoffset rome_2024 (secs (clock (host_at tzdb_rome 1711846800 0))) \<and>
   che_ore_sono (host_at tzdb_rome 1711846799 0) = Inr ''2024-03-31 01:59:59'' \<and>
   che_ore_sono (host_at tzdb_rome 1711846800 0) = Inr ''2024-03-31 03:00:00'' \<and>
   str_le ''2024-03-31 01:59:59'' ''2024-03-31 03:00:00''"
proof -
  have a: "tzdb (host_at tzdb_rome 1711846799 0) TZ_NAME = Inr rome_2024"
    and b: "tzdb (host_at tzdb_rome 1711846800 0) TZ_NAME = Inr rome_2024"
    by (simp_all add: host_at_def tzdb_rome_def TZ_NAME_def)
  have c: "instant_le (clock (host_at tzdb_rome 1711846799 0)) (clock (host_at tzdb_rome 1711846800 0))"
    by (simp add: instant_le_def host_at_def)
  have d: "utcoffset rome_2024 (secs (clock (host_at tzdb_rome 1711846799 0)))
     \<le> utcoffset rome_2024 (secs (clock (host_at tzdb_rome 1711846800 0)))"
    by (simp add: host_at_def utcoffset_def rome_2024_def)
  note e = rome_2024_03_31_before[of 0] and f = rome_2024_03_31_after[of 0]
  from che_ore_sono_monotone[OF a b c d e f] a b c d e f show ?thesis by blast
qed

text \<open>
  C6. In every string that the handler returns, read back field by field, the month is in
  1..12, the day is in 1..(days of that month in that year), the hour is at most 23 and
  the minute and the second are at most 59.
\<close>

theorem che_ore_sono_components_valid:
  assumes "che_ore_sono h = Inr s"
  shows "1 \<le> nat_of_string (slice s 5 7) \<and> nat_of_string (slice s 5 7) \<le> 12 \<and>
     1 \<le> nat_of_string (slice s 8 10) \<and>
     nat_of_string (slice s 8 10)
       \<le> days_in_month (nat_of_string (slice s 0 4)) (nat_of_string (slice s 5 7)) \<and>
     nat_of_string (slice s 11 13) \<le> 23 \<and>
     nat_of_string (slice s 14 16) \<le> 59 \<and>
     nat_of_string (slice s 17 19) \<le> 59"
proof -
  from che_ore_sono_stamp[OF assms] obtain tz y m d where
    b: "1 \<le> y" "y \<le> 9999" "1 \<le> m" "m \<le> 12" "1 \<le> d" "d \<le> days_in_month y m"
    and s: "s = stamp y m d
           (nat ((secs (clock h) + utcoffset tz (secs (clock h))) mod 86400) div 3600)
           (nat ((secs (clock h) + utcoffset tz (secs (clock h))) mod 86400) mod 3600 div 60)
           (nat ((secs (clock h) + utcoffset tz (secs (clock h))) mod 86400) mod 60)"
    by blast
  define sod where "sod = nat ((secs (clock h) + utcoffset tz (secs (clock h))) mod 86400)"
  have hh: "sod div 3600 \<le> 23" and mm: "sod mod 3600 div 60 \<le> 59" and ss: "sod mod 60 \<le> 59"
    unfolding sod_def by (rule time_of_day_bounds)+
  have d31: "days_in_month y m \<le> 31" by (simp add: days_in_month_def)
  have vy: "nat_of_string (slice s 0 4) = y"
    using b by (simp add: s slice_stamp nat_of_string_digs)
  have vm: "nat_of_string (slice s 5 7) = m"
    using b by (simp add: s slice_stamp nat_of_string_digs)
  have vd: "nat_of_string (slice s 8 10) = d"
    using b d31 by (simp add: s slice_stamp nat_of_string_digs)
  have vh: "nat_of_string (slice s 11 13) = sod div 3600"
    using hh by (simp add: s slice_stamp nat_of_string_digs sod_def[symmetric])
  have vn: "nat_of_string (slice s 14 16) = sod mod 3600 div 60"
    using mm by (simp add: s slice_stamp nat_of_string_digs sod_def[symmetric])
  have vs: "nat_of_string (slice s 17 19) = sod mod 60"
    using ss by (simp add: s slice_stamp nat_of_string_digs sod_def[symmetric])
  show ?thesis
    unfolding vy vm vd vh vn vs using b hh mm ss by simp
qed

theorem che_ore_sono_components_valid_witness:
  "che_ore_sono (host_at tzdb_rome 1729990800 7) = Inr ''2024-10-27 02:00:00'' \<and>
   1 \<le> nat_of_string (slice ''2024-10-27 02:00:00'' 5 7) \<and>
   nat_of_string (slice ''2024-10-27 02:00:00'' 5 7) \<le> 12 \<and>
   1 \<le> nat_of_string (slice ''2024-10-27 02:00:00'' 8 10) \<and>
   nat_of_string (slice ''2024-10-27 02:00:00'' 8 10)
     \<le> days_in_month (nat_of_string (slice ''2024-10-27 02:00:00'' 0 4))
          (nat_of_string (slice ''2024-10-27 02:00:00'' 5 7)) \<and>
   nat_of_string (slice ''2024-10-27 02:00:00'' 11 13) \<le> 23 \<and>
   nat_of_string (slice ''2024-10-27 02:00:00'' 14 16) \<le> 59 \<and>
   nat_of_string (slice ''2024-10-27 02:00:00'' 17 19) \<le> 59"
proof -
  have e: "che_ore_sono (host_at tzdb_rome 1729990800 7) = Inr ''2024-10-27 02:00:00''"
    by (rule rome_2024_10_27_after)
  from che_ore_sono_components_valid[OF e] e show ?thesis by blast
qed







text \<open>
  C9, as the specification states it, fails: the error that \<open>get_rome_tz\<close> raises is
  \<open>fastapi.HTTPException\<close> itself, and it already carries the status code 500.
\<close>

theorem get_rome_tz_raises_HTTPException:
  "get_rome_tz (host_at tzdb_missing 1710507909 0) =
     Inl (HTTPException 500 (remediation_detail
       ([CHR 0x27] @ ''No time zone found with key Europe/Rome'' @ [CHR 0x27])))"
  by (simp add: get_rome_tz_def tzdb_missing_TZ_NAME)

text \<open>
  C9, amended. \<open>get_rome_tz\<close> signals the failed lookup with an \<open>HTTPException\<close> of status
  500 and the remediation detail, which the handler passes on; the route answers with
  the status code and the detail that the exception carries.
\<close>

theorem status_code_chosen_by_get_rome_tz:
  "(tzdb h1 TZ_NAME = Inl (ZoneInfoNotFoundError exc) \<longrightarrow>
      get_rome_tz h1 = Inl (HTTPException 500 (remediation_detail exc)) \<and>
      che_ore_sono h1 = Inl (HTTPException 500 (remediation_detail exc))) \<and>
   (che_ore_sono h2 = Inl (HTTPException c d) \<longrightarrow>
      status_code (get_che_ore_sono h2) = c \<and> body (get_che_ore_sono h2) = Json_detail d)"
proof (intro conjI impI)
  assume a: "tzdb h1 TZ_NAME = Inl (ZoneInfoNotFoundError exc)"
  then show "get_rome_tz h1 = Inl (HTTPException 500 (remediation_detail exc))"
    by (simp add: get_rome_tz_def)
  from a show "che_ore_sono h1 = Inl (HTTPException 500 (remediation_detail exc))"
    by (simp add: che_ore_sono_def get_rome_tz_def)
next
  assume e: "che_ore_sono h2 = Inl (HTTPException c d)"
  from get_che_ore_sono_HTTPException[OF e] show "status_code (get_che_ore_sono h2) = c"
    and "body (get_che_ore_sono h2) = Json_detail d" by simp_all
qed

theorem status_code_chosen_by_get_rome_tz_witness:
  "tzdb (host_at tzdb_missing 1710507909 3) TZ_NAME =
     Inl (ZoneInfoNotFoundError ([CHR 0x27] @ ''No time zone found with key Europe/Rome'' @ [CHR 0x27])) \<and>
   get_rome_tz (host_at tzdb_missing 1710507909 3) =
     Inl (HTTPException 500 (remediation_detail
       ([CHR 0x27] @ ''No time zone found with key Europe/Rome'' @ [CHR 0x27]))) \<and>
   che_ore_sono (host_at tzdb_missing 1710507909 3) =
     Inl (HTTPException 500 (remediation_detail
       ([CHR 0x27] @ ''No time zone found with key Europe/Rome'' @ [CHR 0x27]))) \<and>
   status_code (get_che_ore_sono (host_at tzdb_missing 1710507909 3)) = 500 \<and>
   body (get_che_ore_sono (host_at tzdb_missing 1710507909 3)) =
     Json_detail (remediation_detail
       ([CHR 0x27] @ ''No time zone found with key Europe/Rome'' @ [CHR 0x27]))"
proof -
  note t = status_code_chosen_by_get_rome_tz[of "host_at tzdb_missing 1710507909 3"
      "[CHR 0x27] @ ''No time zone found with key Europe/Rome'' @ [CHR 0x27]"
      "host_at tzdb_missing 1710507909 3" 500
      "remediation_detail ([CHR 0x27] @ ''No time zone found with key Europe/Rome'' @ [CHR 0x27])"]
  have a: "tzdb (host_at tzdb_missing 1710507909 3) TZ_NAME =
     Inl (ZoneInfoNotFoundError ([CHR 0x27] @ ''No time zone found with key Europe/Rome'' @ [CHR 0x27]))"
    by (rule tzdb_missing_TZ_NAME)
  from t a show ?thesis by blast
qed



end
